theory Spec2Isabelle
  imports Complex_Main "HOL-Library.Sublist"
begin

section \<open>The voice-wake runtime: strings\<close>

text \<open>
  The runtime (\<^verbatim>\<open>actor VoiceWakeRuntime\<close>) is written in Swift. A Swift \<^verbatim>\<open>String\<close> is
  modelled by its UTF-8 code units, a \<^typ>\<open>string\<close>; a \<^verbatim>\<open>String.Index\<close> is the offset of a
  code unit, which is what a native Swift index stores. The Unicode tables are modelled
  for the ASCII range and for one further scalar:
  \<^item> white space (\<^verbatim>\<open>.whitespacesAndNewlines\<close>, \<^verbatim>\<open>Character.isWhitespace\<close>) is U+0009 to
    U+000D and U+0020;
  \<^item> \<^verbatim>\<open>lowercased()\<close> maps A to Z to a to z, and U+0130 (LATIN CAPITAL LETTER I WITH DOT
    ABOVE, the code units C4 B0) to U+0069 U+0307 (the code units 69 CC 87), which is the
    full case mapping of the Swift standard library for that scalar; every other code
    unit is copied.
  So the model follows the code on text made of ASCII, U+0130 and scalars that have no
  case mapping and are not white space.
\<close>

definition isWhitespace :: "char \<Rightarrow> bool" where
  "isWhitespace c =
     (c \<in> set [CHR 0x09, CHR 0x0A, CHR 0x0B, CHR 0x0C, CHR 0x0D, CHR 0x20])"

definition lowercasedASCII :: "char \<Rightarrow> char" where
  "lowercasedASCII c =
     (case map_of (zip ''ABCDEFGHIJKLMNOPQRSTUVWXYZ'' ''abcdefghijklmnopqrstuvwxyz'') c of
        None \<Rightarrow> c
      | Some l \<Rightarrow> l)"

fun lowercased :: "string \<Rightarrow> string" where
  "lowercased [] = []"
| "lowercased [a] = [lowercasedASCII a]"
| "lowercased (a # b # cs) =
     (if a = CHR 0xC4 \<and> b = CHR 0xB0 then CHR 0x69 # CHR 0xCC # CHR 0x87 # lowercased cs
      else lowercasedASCII a # lowercased (b # cs))"

definition trimmingCharacters :: "string \<Rightarrow> string" where
  "trimmingCharacters s = rev (dropWhile isWhitespace (rev (dropWhile isWhitespace s)))"

text \<open>
  \<^verbatim>\<open>text.split(whereSeparator: { $0.isWhitespace })\<close>: the maximal runs of characters that
  are not white space (empty subsequences are omitted, the default).
\<close>

fun splitLoop :: "string \<Rightarrow> string \<Rightarrow> string list" where
  "splitLoop cur [] = (if cur = [] then [] else [cur])"
| "splitLoop cur (c # cs) =
     (if isWhitespace c then (if cur = [] then splitLoop [] cs else cur # splitLoop [] cs)
      else splitLoop (cur @ [c]) cs)"

definition splitWhitespace :: "string \<Rightarrow> string list" where
  "splitWhitespace text = splitLoop [] text"

text \<open>
  \<^verbatim>\<open>lower.range(of: token)\<close>: the bounds of the first occurrence of the token, none for an
  empty token. \<^verbatim>\<open>normalized.contains(t)\<close> is the same search.
\<close>

fun rangeFrom :: "nat \<Rightarrow> string \<Rightarrow> string \<Rightarrow> (nat \<times> nat) option" where
  "rangeFrom i [] needle = None"
| "rangeFrom i (c # cs) needle =
     (if prefix needle (c # cs) then Some (i, i + length needle)
      else rangeFrom (Suc i) cs needle)"

definition rangeOf :: "string \<Rightarrow> string \<Rightarrow> (nat \<times> nat) option" where
  "rangeOf hay needle = (if needle = [] then None else rangeFrom 0 hay needle)"

definition containsString :: "string \<Rightarrow> string \<Rightarrow> bool" where
  "containsString hay needle = (rangeOf hay needle \<noteq> None)"

text \<open>
  \<^verbatim>\<open>text[after...]\<close>: the code units of the text from the offset that the index stores.
  Swift traps when that offset lies beyond the end of the string the index is applied
  to; the trap is the value \<open>None\<close>.
\<close>

definition suffixFrom :: "string \<Rightarrow> nat \<Rightarrow> string option" where
  "suffixFrom text after = (if length text < after then None else Some (drop after text))"

subsection \<open>The trigger matcher\<close>

fun matchesLoop :: "string \<Rightarrow> string list \<Rightarrow> bool" where
  "matchesLoop normalized [] = False"
| "matchesLoop normalized (trigger # rest) =
     (let t = trimmingCharacters (lowercased trigger) in
      if t = [] then matchesLoop normalized rest
      else if containsString normalized t then True
      else matchesLoop normalized rest)"

definition matches :: "string \<Rightarrow> string list \<Rightarrow> bool" where
  "matches text triggers =
     (if text = [] then False else matchesLoop (lowercased text) triggers)"

fun trimmedAfterLoop :: "string \<Rightarrow> string \<Rightarrow> string list \<Rightarrow> string option" where
  "trimmedAfterLoop text lower [] = Some text"
| "trimmedAfterLoop text lower (trigger # rest) =
     (let token = trimmingCharacters (lowercased trigger) in
      if token = [] then trimmedAfterLoop text lower rest
      else (case rangeOf lower token of
              None \<Rightarrow> trimmedAfterLoop text lower rest
            | Some (lo, after) \<Rightarrow> map_option trimmingCharacters (suffixFrom text after)))"

definition trimmedAfterTrigger :: "string \<Rightarrow> string list \<Rightarrow> string option" where
  "trimmedAfterTrigger text triggers = trimmedAfterLoop text (lowercased text) triggers"

definition textHasBeyondTriggerContent :: "string \<Rightarrow> bool" where
  "textHasBeyondTriggerContent text = (1 < length (splitWhitespace text))"


section \<open>The runtime state\<close>

text \<open>
  A \<^verbatim>\<open>Date\<close> is a number of seconds and a \<^verbatim>\<open>TimeInterval\<close> a difference of two; both are
  real numbers here (the code computes with doubles). Every \<^verbatim>\<open>Date()\<close> the code reads is an
  argument of the function that reads it.
\<close>

type_synonym Date = real
type_synonym TimeInterval = real

definition silenceWindow :: TimeInterval where
  "silenceWindow = 1.0"


definition debounceAfterSend :: TimeInterval where
  "debounceAfterSend = 0.35"

record RuntimeConfig =
  triggers :: "string list"
  micID :: "string option"
  localeID :: "string option"

text \<open>
  The stored properties of the actor. \<open>recognizer\<close> holds the locale identifier of the
  speech recognizer (\<open>None\<close> for \<^verbatim>\<open>nil\<close>); \<open>recognitionTask\<close> holds the configuration that the
  running task's callback has captured; \<open>recognitionRequest\<close> and \<open>captureTask\<close> say whether
  the optional holds an object; \<open>tapInstalled\<close> and \<open>audioEngineRunning\<close> are the state of
  the audio engine.
\<close>

record VoiceWakeRuntime =
  recognizer :: "string option"
  audioEngineRunning :: bool
  tapInstalled :: bool
  recognitionRequest :: bool
  recognitionTask :: "RuntimeConfig option"
  lastHeard :: "Date option"
  captureStartedAt :: "Date option"
  captureTask :: bool
  capturedTranscript :: string
  isCapturing :: bool
  heardBeyondTrigger :: bool
  cooldownUntil :: "Date option"
  currentConfig :: "RuntimeConfig option"

definition initialRuntime :: VoiceWakeRuntime where
  "initialRuntime =
     \<lparr>recognizer = None, audioEngineRunning = False, tapInstalled = False,
      recognitionRequest = False, recognitionTask = None, lastHeard = None,
      captureStartedAt = None, captureTask = False, capturedTranscript = [],
      isCapturing = False, heardBeyondTrigger = False, cooldownUntil = None,
      currentConfig = None\<rparr>"

text \<open>
  What a function does to the world outside the actor, in program order: the calls on
  the overlay controller, on the application state store, on the logger and on the audio
  engine and the recognition objects, and the tasks it spawns. \<open>'f\<close> is the type of the
  forward-routing configuration, which the runtime only passes on.
\<close>

datatype LogLevel = Debug | Info | Error

datatype DismissReason = ReasonEmpty

datatype 'f Effect =
    ShowPartial string
  | PresentFinal string 'f TimeInterval
  | DismissWith DismissReason
  | Dismiss
  | TriggerVoiceEars
  | StopVoiceEars
  | Log LogLevel string
  | CancelCaptureTask
  | CancelRecognitionTask
  | EndAudio
  | RemoveTap
  | InstallTap
  | AudioEnginePrepare
  | AudioEngineStart
  | AudioEngineStop
  | SpawnMonitor RuntimeConfig
  | SpawnStart RuntimeConfig
  | Sleep nat

fun isPresentFinal :: "'f Effect \<Rightarrow> bool" where
  "isPresentFinal (PresentFinal t f d) = True"
| "isPresentFinal e = False"

subsection \<open>stop, start, refresh\<close>

definition stop :: "VoiceWakeRuntime \<Rightarrow> VoiceWakeRuntime \<times> 'f Effect list" where
  "stop s =
     (s\<lparr>captureTask := False, isCapturing := False, capturedTranscript := [],
        captureStartedAt := None, recognitionTask := None, recognitionRequest := False,
        tapInstalled := False, audioEngineRunning := False, currentConfig := None\<rparr>,
      (if captureTask s then [CancelCaptureTask] else [])
      @ (if recognitionTask s \<noteq> None then [CancelRecognitionTask] else [])
      @ (if recognitionRequest s then [EndAudio] else [])
      @ [RemoveTap, AudioEngineStop, Log Debug ''voicewake runtime stopped'', Dismiss])"

text \<open>
  What \<^verbatim>\<open>start\<close> finds in the platform: the current locale, whether
  \<^verbatim>\<open>SFSpeechRecognizer(locale:)\<close> gives a recognizer and whether it is available, the
  error that \<^verbatim>\<open>audioEngine.start()\<close> throws, if any, and the clock.
\<close>

record Platform =
  currentLocale :: string
  recognizerCreated :: bool
  recognizerIsAvailable :: bool
  engineStartError :: "string option"
  startDate :: Date

definition configureSession :: "string option \<Rightarrow> Platform \<Rightarrow> VoiceWakeRuntime \<Rightarrow> VoiceWakeRuntime" where
  "configureSession localeID' env s =
     (let locale = (case localeID' of Some l \<Rightarrow> l | None \<Rightarrow> currentLocale env)
      in s\<lparr>recognizer := (if recognizerCreated env then Some locale else None)\<rparr>)"

definition start :: "RuntimeConfig \<Rightarrow> Platform \<Rightarrow> VoiceWakeRuntime \<Rightarrow> VoiceWakeRuntime \<times> 'f Effect list" where
  "start config env s =
     (let s1 = configureSession (localeID config) env s in
      if recognizer s1 = None \<or> \<not> recognizerIsAvailable env
      then (s1, [Log Error ''voicewake runtime: speech recognizer unavailable''])
      else
        let s2 = s1\<lparr>recognitionRequest := True, tapInstalled := True\<rparr> in
        (case engineStartError env of
           Some err \<Rightarrow>
             (let (s3, es) = stop s2
              in (s3, [RemoveTap, InstallTap, AudioEnginePrepare,
                       Log Error (''voicewake runtime failed to start: '' @ err)] @ es))
         | None \<Rightarrow>
             (s2\<lparr>audioEngineRunning := True, currentConfig := Some config,
                 lastHeard := Some (startDate env), cooldownUntil := None,
                 recognitionTask := Some config\<rparr>,
              [RemoveTap, InstallTap, AudioEnginePrepare, AudioEngineStart,
               Log Info ''voicewake runtime started''])))"

record AppState =
  swabbleEnabled :: bool
  swabbleTriggerWords :: "string list"
  voiceWakeMicID :: string
  voiceWakeLocaleID :: string

text \<open>
  \<^verbatim>\<open>voiceWakeSupported\<close> is a constant of the application and
  \<^verbatim>\<open>PermissionManager.voiceWakePermissionsGranted()\<close> a call into it; both are arguments.
\<close>

definition snapshot :: "AppState \<Rightarrow> bool \<times> RuntimeConfig" where
  "snapshot state =
     (let enabled = swabbleEnabled state;
          config = \<lparr>triggers = swabbleTriggerWords state,
                    micID = (if voiceWakeMicID state = [] then None
                             else Some (voiceWakeMicID state)),
                    localeID = (if voiceWakeLocaleID state = [] then None
                                else Some (voiceWakeLocaleID state))\<rparr>
      in (enabled, config))"

definition refresh :: "bool \<Rightarrow> bool \<Rightarrow> AppState \<Rightarrow> Platform \<Rightarrow> VoiceWakeRuntime
    \<Rightarrow> VoiceWakeRuntime \<times> 'f Effect list" where
  "refresh voiceWakeSupported permissionsGranted state env s =
     (if \<not> (voiceWakeSupported \<and> fst (snapshot state)) then stop s
      else if \<not> permissionsGranted then
        (let (s1, es) = stop s
         in (s1, Log Debug ''voicewake runtime not starting: permissions missing'' # es))
      else
        let config = snd (snapshot state) in
        if Some config = currentConfig s \<and> recognitionTask s \<noteq> None then (s, [])
        else
          (let (s1, es1) = stop s; (s2, es2) = start config env s1
           in (s2, es1 @ es2)))"

subsection \<open>Recognition callbacks and the capture\<close>

text \<open>
  Each function of the actor runs here without interleaving at its suspension points
  (\<^verbatim>\<open>await MainActor.run\<close>, \<^verbatim>\<open>Task.sleep\<close>): what another task of the actor could do there
  is not part of this model. A trap of \<^verbatim>\<open>trimmedAfterTrigger\<close> ends the process: the
  function that runs into it has the value \<open>None\<close>.
\<close>

definition updateHeardBeyondTrigger :: "string \<Rightarrow> VoiceWakeRuntime \<Rightarrow> VoiceWakeRuntime" where
  "updateHeardBeyondTrigger transcript s =
     (if \<not> heardBeyondTrigger s \<and> textHasBeyondTriggerContent transcript
      then s\<lparr>heardBeyondTrigger := True\<rparr> else s)"

definition beginCapture :: "string \<Rightarrow> RuntimeConfig \<Rightarrow> Date \<Rightarrow> VoiceWakeRuntime
    \<Rightarrow> (VoiceWakeRuntime \<times> 'f Effect list) option" where
  "beginCapture transcript config tBegin s =
     (case trimmedAfterTrigger transcript (triggers config) of
        None \<Rightarrow> None
      | Some trimmed \<Rightarrow>
          Some (s\<lparr>isCapturing := True, capturedTranscript := trimmed,
                  captureStartedAt := Some tBegin, cooldownUntil := None,
                  heardBeyondTrigger := textHasBeyondTriggerContent transcript,
                  captureTask := True\<rparr>,
                [ShowPartial trimmed, TriggerVoiceEars]
                @ (if captureTask s then [CancelCaptureTask] else [])
                @ [SpawnMonitor config]))"

text \<open>
  \<open>now\<close> is the \<^verbatim>\<open>Date()\<close> that \<^verbatim>\<open>handleRecognition\<close> reads and \<open>tBegin\<close> the one that
  \<^verbatim>\<open>beginCapture\<close> reads; an error is its description.
\<close>

definition handleRecognition :: "string option \<Rightarrow> string option \<Rightarrow> RuntimeConfig \<Rightarrow> Date \<Rightarrow> Date
    \<Rightarrow> VoiceWakeRuntime \<Rightarrow> (VoiceWakeRuntime \<times> 'f Effect list) option" where
  "handleRecognition transcript error config now tBegin s =
     (let logged = (case error of
                      Some e \<Rightarrow> [Log Debug (''voicewake recognition error: '' @ e)]
                    | None \<Rightarrow> []) :: 'f Effect list
      in case transcript of
           None \<Rightarrow> Some (s, logged)
         | Some tr \<Rightarrow>
             (case (if tr \<noteq> [] then
                      (let s0 = s\<lparr>lastHeard := Some now\<rparr> in
                       if isCapturing s0 then
                         (case trimmedAfterTrigger tr (triggers config) of
                            None \<Rightarrow> None
                          | Some trimmed \<Rightarrow>
                              Some (updateHeardBeyondTrigger tr
                                      (s0\<lparr>capturedTranscript := trimmed\<rparr>),
                                    [ShowPartial trimmed]))
                       else Some (s0, []))
                    else Some (s, [])) of
                None \<Rightarrow> None
              | Some (s1, shown) \<Rightarrow>
                  if isCapturing s1 then Some (s1, logged @ shown)
                  else if matches tr (triggers config) then
                    (if (case cooldownUntil s1 of
                           Some cooldown \<Rightarrow> now < cooldown
                         | None \<Rightarrow> False)
                     then Some (s1, logged @ shown)
                     else map_option (\<lambda>(s2, es). (s2, logged @ shown @ es))
                            (beginCapture tr config tBegin s1))
                  else Some (s1, logged @ shown)))"

definition restartRecognizer :: "VoiceWakeRuntime \<Rightarrow> VoiceWakeRuntime \<times> 'f Effect list" where
  "restartRecognizer s =
     (let current = currentConfig s; (s1, es) = stop s
      in (s1, es @ (case current of Some c \<Rightarrow> [SpawnStart c] | None \<Rightarrow> [])))"

text \<open>
  \<open>forwardConfig\<close> is what \<^verbatim>\<open>AppStateStore.shared.voiceWakeForwardConfig\<close> holds and \<open>tNow\<close>
  the \<^verbatim>\<open>Date()\<close> read when the cooldown is set.
\<close>

definition finalizeCapture :: "RuntimeConfig \<Rightarrow> 'f \<Rightarrow> Date \<Rightarrow> VoiceWakeRuntime
    \<Rightarrow> VoiceWakeRuntime \<times> 'f Effect list" where
  "finalizeCapture config forwardConfig tNow s =
     (if \<not> isCapturing s then (s, [])
      else
        let cancelled = (if captureTask s then [CancelCaptureTask] else []);
            finalTranscript = trimmingCharacters (capturedTranscript s);
            heard = heardBeyondTrigger s;
            s1 = s\<lparr>isCapturing := False, captureTask := False, capturedTranscript := [],
                   captureStartedAt := None, lastHeard := None,
                   heardBeyondTrigger := False\<rparr>
        in if finalTranscript = [] then
             (let (s2, es) = restartRecognizer
                               (s1\<lparr>cooldownUntil := Some (tNow + debounceAfterSend)\<rparr>)
              in (s2, cancelled @ [StopVoiceEars, DismissWith ReasonEmpty] @ es))
           else
             (let delay = (if heard then 1.0 else 3.0);
                  (s2, es) = restartRecognizer
                               (s1\<lparr>cooldownUntil := Some (tNow + debounceAfterSend)\<rparr>)
              in (s2, cancelled
                      @ [StopVoiceEars, PresentFinal finalTranscript forwardConfig delay]
                      @ es)))"

subsection \<open>The silence and timeout monitor\<close>

text \<open>
  The local variables of \<^verbatim>\<open>monitorCapture\<close> are a frame; \<open>monitorCapture\<close> sets them up
  (\<open>tEntry\<close> is the \<^verbatim>\<open>Date()\<close> read when \<open>captureStartedAt\<close> is \<^verbatim>\<open>nil\<close>) and \<open>monitorPoll\<close> is one
  pass through the loop, from its test to its sleep of 200 ms: it gives the frame for the
  next pass, or none when the function has returned.
\<close>

record MonitorFrame =
  hardStop :: Date
  silentStrikes :: nat


definition silentAt :: "VoiceWakeRuntime \<Rightarrow> Date \<Rightarrow> bool" where
  "silentAt s now =
     (case lastHeard s of Some heard \<Rightarrow> silenceWindow \<le> now - heard | None \<Rightarrow> False)"

definition monitorPoll :: "RuntimeConfig \<Rightarrow> 'f \<Rightarrow> Date \<Rightarrow> Date \<Rightarrow> MonitorFrame \<Rightarrow> VoiceWakeRuntime
    \<Rightarrow> MonitorFrame option \<times> VoiceWakeRuntime \<times> 'f Effect list" where
  "monitorPoll config forwardConfig now tNow frame s =
     (if \<not> isCapturing s then (None, s, [])
      else if hardStop frame \<le> now then (None, finalizeCapture config forwardConfig tNow s)
      else if silentAt s now then
        (let strikes = silentStrikes frame + 1 in
         if 2 \<le> strikes then (None, finalizeCapture config forwardConfig tNow s)
         else (Some (frame\<lparr>silentStrikes := strikes\<rparr>), s, [Sleep 200000000]))
      else (Some (frame\<lparr>silentStrikes := 0\<rparr>), s, [Sleep 200000000]))"

text \<open>
  What holds of the state whenever a capture is active, whatever the order in which the
  functions of the actor run.
\<close>

definition captureInvariant :: "VoiceWakeRuntime \<Rightarrow> bool" where
  "captureInvariant s =
     (isCapturing s \<longrightarrow> captureStartedAt s \<noteq> None \<and> lastHeard s \<noteq> None \<and> captureTask s)"

subsection \<open>Sequences of callbacks, and a running example\<close>

text \<open>
  The recognition callbacks reach the actor one at a time and are processed in their
  order of arrival; a callback carries the transcript, the error, the configuration its
  task was started with and the two clock readings.
\<close>

datatype RecognitionEvent =
  Recognition (transcriptOf: "string option") (errorOf: "string option")
    (configOf: RuntimeConfig) (nowOf: Date) (beginOf: Date)

fun processRecognitions :: "RecognitionEvent list \<Rightarrow> VoiceWakeRuntime
    \<Rightarrow> (VoiceWakeRuntime \<times> 'f Effect list) option" where
  "processRecognitions [] s = Some (s, [])"
| "processRecognitions (ev # evs) s =
     (case handleRecognition (transcriptOf ev) (errorOf ev) (configOf ev) (nowOf ev)
             (beginOf ev) s of
        None \<Rightarrow> None
      | Some (s1, es1) \<Rightarrow>
          map_option (\<lambda>(s2, es2). (s2, es1 @ es2)) (processRecognitions evs s1))"

definition exampleConfig :: RuntimeConfig where
  "exampleConfig = \<lparr>triggers = [''hey claw''], micID = None, localeID = None\<rparr>"

definition examplePlatform :: "Date \<Rightarrow> Platform" where
  "examplePlatform t =
     \<lparr>currentLocale = ''en_US'', recognizerCreated = True, recognizerIsAvailable = True,
      engineStartError = None, startDate = t\<rparr>"

definition exampleListening :: VoiceWakeRuntime where
  "exampleListening =
     \<lparr>recognizer = Some ''en_US'', audioEngineRunning = True, tapInstalled = True,
      recognitionRequest = True, recognitionTask = Some exampleConfig, lastHeard = Some 0,
      captureStartedAt = None, captureTask = False, capturedTranscript = [],
      isCapturing = False, heardBeyondTrigger = False, cooldownUntil = None,
      currentConfig = Some exampleConfig\<rparr>"

definition exampleCapturing :: VoiceWakeRuntime where
  "exampleCapturing =
     exampleListening\<lparr>lastHeard := Some 1, captureStartedAt := Some 1, captureTask := True,
       capturedTranscript := ''what time is it'', isCapturing := True,
       heardBeyondTrigger := True\<rparr>"

definition exampleAppState :: AppState where
  "exampleAppState =
     \<lparr>swabbleEnabled = True, swabbleTriggerWords = [''hey claw''], voiceWakeMicID = [],
      voiceWakeLocaleID = []\<rparr>"

definition capitalIWithDotAbove :: string where
  "capitalIWithDotAbove = [CHR 0xC4, CHR 0xB0]"

definition exampleFinalized :: VoiceWakeRuntime where
  "exampleFinalized =
     initialRuntime\<lparr>recognizer := Some ''en_US'', cooldownUntil := Some 2.65\<rparr>"

definition exampleRestarted :: VoiceWakeRuntime where
  "exampleRestarted = exampleListening\<lparr>lastHeard := Some 2.4\<rparr>"

definition exampleOneWord :: RuntimeConfig where
  "exampleOneWord = \<lparr>triggers = [''claw''], micID = None, localeID = None\<rparr>"

definition exampleOneWordListening :: VoiceWakeRuntime where
  "exampleOneWordListening =
     exampleListening\<lparr>recognitionTask := Some exampleOneWord,
       currentConfig := Some exampleOneWord\<rparr>"

definition exampleOneWordHeard :: VoiceWakeRuntime where
  "exampleOneWordHeard = exampleOneWordListening\<lparr>lastHeard := Some 1\<rparr>"

definition exampleOneWordBegun :: VoiceWakeRuntime where
  "exampleOneWordBegun =
     exampleOneWordHeard\<lparr>isCapturing := True, captureStartedAt := Some 1,
       captureTask := True\<rparr>"

definition exampleUpdates :: "RecognitionEvent list" where
  "exampleUpdates =
     [Recognition (Some ''claw'') None exampleOneWord 2 2,
      Recognition (Some ''claw go'') None exampleOneWord 3 3]"

section \<open>Properties\<close>

subsection \<open>The running example is a run of the code\<close>

lemmas string_eval =
  lowercasedASCII_def trimmingCharacters_def isWhitespace_def rangeOf_def containsString_def
  suffixFrom_def matches_def trimmedAfterTrigger_def
  textHasBeyondTriggerContent_def splitWhitespace_def

lemmas example_states =
  exampleConfig_def examplePlatform_def exampleListening_def exampleCapturing_def
  exampleFinalized_def exampleRestarted_def initialRuntime_def

lemma exampleListening_started:
  "start exampleConfig (examplePlatform 0) initialRuntime
     = (exampleListening,
        [RemoveTap, InstallTap, AudioEnginePrepare, AudioEngineStart,
         Log Info ''voicewake runtime started''])"
  by (simp add: start_def configureSession_def exampleConfig_def examplePlatform_def
      initialRuntime_def exampleListening_def)

lemma trimmed_example:
  "trimmedAfterTrigger ''hey claw what time is it'' [''hey claw''] = Some ''what time is it''"
  by (simp add: trimmedAfterTrigger_def lowercasedASCII_def trimmingCharacters_def
      isWhitespace_def rangeOf_def suffixFrom_def)

lemma matches_example:
  "matches ''hey claw what time is it'' [''hey claw'']"
  by (simp add: matches_def lowercasedASCII_def trimmingCharacters_def isWhitespace_def
      rangeOf_def containsString_def)

lemma beyond_example: "textHasBeyondTriggerContent ''hey claw what time is it''"
  by (simp add: textHasBeyondTriggerContent_def splitWhitespace_def isWhitespace_def)

lemma exampleCapturing_begun:
  "handleRecognition (Some ''hey claw what time is it'') None exampleConfig 1 1
     exampleListening
   = Some (exampleCapturing,
           [ShowPartial ''what time is it'', TriggerVoiceEars, SpawnMonitor exampleConfig])"
  by (simp add: handleRecognition_def beginCapture_def exampleListening_def
      exampleCapturing_def exampleConfig_def trimmed_example matches_example beyond_example)

subsection \<open>Finalization\<close>

text \<open>
  C3: finalizing an active capture whose trimmed transcript is empty emits exactly one
  dismissal with the reason "empty" and no \<open>presentFinal\<close>; finalizing one whose trimmed
  transcript is not empty emits exactly one \<open>presentFinal\<close>, with that transcript, the
  forward-routing configuration and a delay of 1.0 s when \<open>heardBeyondTrigger\<close> was set
  and of 3.0 s otherwise, and no dismissal with the reason "empty".
\<close>

theorem finalize_presents_or_dismisses:
  assumes "isCapturing s"
  shows "let finalTranscript = trimmingCharacters (capturedTranscript s);
             es = snd (finalizeCapture config forwardConfig tNow s)
         in if finalTranscript = []
            then count_list es (DismissWith ReasonEmpty) = 1 \<and> filter isPresentFinal es = []
            else filter isPresentFinal es
                   = [PresentFinal finalTranscript forwardConfig
                        (if heardBeyondTrigger s then 1.0 else 3.0)]
                 \<and> count_list es (DismissWith ReasonEmpty) = 0"
  using assms
  by (simp add: finalizeCapture_def restartRecognizer_def stop_def Let_def
      split: prod.splits option.splits)

theorem finalize_presents_or_dismisses_witness:
  "isCapturing exampleCapturing
   \<and> filter isPresentFinal (snd (finalizeCapture exampleConfig () 2.3 exampleCapturing))
       = [PresentFinal ''what time is it'' () 1.0]
   \<and> count_list (snd (finalizeCapture exampleConfig () 2.3 exampleCapturing))
        (DismissWith ReasonEmpty) = 0
   \<and> isCapturing (exampleCapturing\<lparr>capturedTranscript := '' '', heardBeyondTrigger := False\<rparr>)
   \<and> count_list (snd (finalizeCapture exampleConfig () 2.3
          (exampleCapturing\<lparr>capturedTranscript := '' '', heardBeyondTrigger := False\<rparr>)))
        (DismissWith ReasonEmpty) = 1
   \<and> filter isPresentFinal (snd (finalizeCapture exampleConfig () 2.3
          (exampleCapturing\<lparr>capturedTranscript := '' '', heardBeyondTrigger := False\<rparr>))) = []"
proof -
  have a: "isCapturing exampleCapturing"
    by (simp add: exampleCapturing_def)
  have b: "isCapturing (exampleCapturing\<lparr>capturedTranscript := '' '', heardBeyondTrigger := False\<rparr>)"
    by (simp add: exampleCapturing_def)
  have c: "trimmingCharacters (capturedTranscript exampleCapturing) = ''what time is it''"
    "heardBeyondTrigger exampleCapturing"
    by (simp_all add: exampleCapturing_def trimmingCharacters_def isWhitespace_def)
  have d: "trimmingCharacters (capturedTranscript
      (exampleCapturing\<lparr>capturedTranscript := '' '', heardBeyondTrigger := False\<rparr>)) = []"
    by (simp add: trimmingCharacters_def isWhitespace_def)
  show ?thesis
    using finalize_presents_or_dismisses [OF a, of exampleConfig "()" "2.3"]
      finalize_presents_or_dismisses [OF b, of exampleConfig "()" "2.3"] a b
    by (simp only: c d Let_def) simp
qed

subsection \<open>Callbacks that carry no transcript\<close>

text \<open>
  C9: a recognition callback with an error and no transcript leaves the state of the
  runtime as it was (no capture session is created or changed, \<open>lastHeard\<close> and
  \<open>cooldownUntil\<close> keep their values) and notifies no collaborator: the one thing it does
  is to log the error.
\<close>

theorem error_without_transcript_changes_nothing:
  "handleRecognition None (Some e) config now tBegin s
     = Some (s, [Log Debug (''voicewake recognition error: '' @ e)])"
  by (simp add: handleRecognition_def)

subsection \<open>Refresh\<close>

text \<open>
  C6: when \<open>refresh\<close> runs with voice wake supported and enabled, the permissions granted,
  and a configuration equal to the active one while a recognition task exists, it stops
  nothing, starts nothing and leaves the whole state of the runtime as it was.
\<close>

theorem refresh_same_config_is_noop:
  assumes "voiceWakeSupported" and "fst (snapshot state)" and "permissionsGranted"
    and "currentConfig s = Some (snd (snapshot state))"
    and "recognitionTask s \<noteq> None"
  shows "refresh voiceWakeSupported permissionsGranted state env s = (s, [])"
  using assms by (simp add: refresh_def)

theorem refresh_same_config_is_noop_witness:
  "fst (snapshot exampleAppState)
   \<and> currentConfig exampleListening = Some (snd (snapshot exampleAppState))
   \<and> recognitionTask exampleListening \<noteq> None
   \<and> refresh True True exampleAppState (examplePlatform 5) exampleListening
       = (exampleListening, ([] :: unit Effect list))"
proof -
  have a: "fst (snapshot exampleAppState)"
    by (simp add: snapshot_def exampleAppState_def)
  have b: "currentConfig exampleListening = Some (snd (snapshot exampleAppState))"
    by (simp add: snapshot_def exampleAppState_def exampleListening_def exampleConfig_def)
  have c: "recognitionTask exampleListening \<noteq> None"
    by (simp add: exampleListening_def)
  show ?thesis
    using refresh_same_config_is_noop [OF TrueI a TrueI b c] a b c by simp
qed

subsection \<open>Starting the recognition source\<close>

text \<open>
  C10: a start that succeeds (a recognizer exists and is available, the audio engine
  starts) sets \<open>lastHeard\<close> to the time of the start and \<open>cooldownUntil\<close> to \<^verbatim>\<open>nil\<close>. This
  holds for the start that a finalization spawns as its last action: the finalization has
  set \<open>cooldownUntil\<close> to its time plus the debounce, and that value is gone once the
  start has run.
\<close>

theorem successful_start_clears_cooldown:
  assumes "recognizerCreated env" and "recognizerIsAvailable env"
    and "engineStartError env = None"
    and "start config env s = (s', es)"
  shows "lastHeard s' = Some (startDate env) \<and> cooldownUntil s' = None
     \<and> recognitionTask s' = Some config \<and> currentConfig s' = Some config
     \<and> (isCapturing s0 \<and> currentConfig s0 = Some config
          \<and> s = fst (finalizeCapture config0 forwardConfig tNow s0) \<longrightarrow>
          SpawnStart config \<in> set (snd (finalizeCapture config0 forwardConfig tNow s0))
        \<and> cooldownUntil s = Some (tNow + debounceAfterSend))"
  using assms
  by (auto simp add: start_def configureSession_def finalizeCapture_def restartRecognizer_def
      stop_def Let_def split: prod.splits)

theorem successful_start_clears_cooldown_witness:
  "recognizerCreated (examplePlatform 2.4) \<and> recognizerIsAvailable (examplePlatform 2.4)
   \<and> engineStartError (examplePlatform 2.4) = None
   \<and> isCapturing exampleCapturing \<and> currentConfig exampleCapturing = Some exampleConfig
   \<and> cooldownUntil (fst (finalizeCapture exampleConfig () 2.3 exampleCapturing)) = Some 2.65
   \<and> cooldownUntil (fst (start exampleConfig (examplePlatform 2.4)
        (fst (finalizeCapture exampleConfig () 2.3 exampleCapturing))
          :: VoiceWakeRuntime \<times> unit Effect list)) = None
   \<and> lastHeard (fst (start exampleConfig (examplePlatform 2.4)
        (fst (finalizeCapture exampleConfig () 2.3 exampleCapturing))
          :: VoiceWakeRuntime \<times> unit Effect list)) = Some 2.4"
proof -
  have a: "recognizerCreated (examplePlatform 2.4)" "recognizerIsAvailable (examplePlatform 2.4)"
    "engineStartError (examplePlatform 2.4) = None"
    by (simp_all add: examplePlatform_def)
  have t: "startDate (examplePlatform 2.4) = 2.4"
    by (simp add: examplePlatform_def)
  have b: "isCapturing exampleCapturing" "currentConfig exampleCapturing = Some exampleConfig"
    by (simp_all add: exampleCapturing_def exampleListening_def)
  let ?r = "start exampleConfig (examplePlatform 2.4)
              (fst (finalizeCapture exampleConfig () 2.3 exampleCapturing))
             :: VoiceWakeRuntime \<times> unit Effect list"
  have c: "?r = (fst ?r, snd ?r)"
    by simp
  show ?thesis
    using successful_start_clears_cooldown [OF a c, of exampleCapturing exampleConfig "()" "2.3"]
      a b
    by (simp add: examplePlatform_def debounceAfterSend_def)
qed

subsection \<open>Recognition callbacks\<close>

lemma updateHeardBeyondTrigger_fields [simp]:
  "isCapturing (updateHeardBeyondTrigger tr s) = isCapturing s"
  "cooldownUntil (updateHeardBeyondTrigger tr s) = cooldownUntil s"
  "captureStartedAt (updateHeardBeyondTrigger tr s) = captureStartedAt s"
  "lastHeard (updateHeardBeyondTrigger tr s) = lastHeard s"
  "capturedTranscript (updateHeardBeyondTrigger tr s) = capturedTranscript s"
  "captureTask (updateHeardBeyondTrigger tr s) = captureTask s"
  "heardBeyondTrigger (updateHeardBeyondTrigger tr s)
     = (heardBeyondTrigger s \<or> textHasBeyondTriggerContent tr)"
  by (simp_all add: updateHeardBeyondTrigger_def)

lemma handleRecognition_capturing:
  assumes "isCapturing s" and "tr \<noteq> []"
  shows "handleRecognition (Some tr) err config now tBegin s
     = map_option
         (\<lambda>trimmed. (updateHeardBeyondTrigger tr
                        (s\<lparr>lastHeard := Some now, capturedTranscript := trimmed\<rparr>),
                      (case err of
                         Some e \<Rightarrow> [Log Debug (''voicewake recognition error: '' @ e)]
                       | None \<Rightarrow> []) @ [ShowPartial trimmed]))
         (trimmedAfterTrigger tr (triggers config))"
  using assms by (simp add: handleRecognition_def split: option.splits)

lemma handleRecognition_idle:
  assumes "\<not> isCapturing s" and "matches tr (triggers config)"
  shows "handleRecognition (Some tr) err config now tBegin s
     = (if (\<exists>c. cooldownUntil s = Some c \<and> now < c)
        then Some (s\<lparr>lastHeard := Some now\<rparr>,
                   (case err of
                      Some e \<Rightarrow> [Log Debug (''voicewake recognition error: '' @ e)]
                    | None \<Rightarrow> []))
        else map_option
               (\<lambda>(s2, es). (s2, (case err of
                      Some e \<Rightarrow> [Log Debug (''voicewake recognition error: '' @ e)]
                    | None \<Rightarrow> []) @ es))
               (beginCapture tr config tBegin (s\<lparr>lastHeard := Some now\<rparr>)))"
proof -
  from assms(2) have "tr \<noteq> []"
    by (auto simp: matches_def)
  with assms show ?thesis
    by (cases "cooldownUntil s") (simp_all add: handleRecognition_def)
qed

text \<open>
  C5: a callback whose transcript matches a trigger begins a capture (signals the voice
  ears and spawns the monitor) only if no capture is active and, when a cooldown is set,
  the time of the callback is at or after it; a match while \<open>now < cooldownUntil\<close> begins
  none and leaves the capture fields and the cooldown as they were.
\<close>

theorem trigger_match_begins_capture_only_when_idle_and_cooled:
  assumes "matches tr (triggers config)"
    and "handleRecognition (Some tr) err config now tBegin s = Some (s', es)"
  shows "(TriggerVoiceEars \<in> set es
           \<longleftrightarrow> \<not> isCapturing s \<and> (\<forall>c. cooldownUntil s = Some c \<longrightarrow> c \<le> now))
       \<and> (SpawnMonitor config \<in> set es
           \<longleftrightarrow> \<not> isCapturing s \<and> (\<forall>c. cooldownUntil s = Some c \<longrightarrow> c \<le> now))
       \<and> ((\<exists>c. cooldownUntil s = Some c \<and> now < c)
           \<longrightarrow> TriggerVoiceEars \<notin> set es \<and> isCapturing s' = isCapturing s
               \<and> captureStartedAt s' = captureStartedAt s \<and> cooldownUntil s' = cooldownUntil s)"
proof (cases "isCapturing s")
  case True
  from assms(1) have "tr \<noteq> []"
    by (auto simp: matches_def)
  with True assms(2) show ?thesis
    by (cases err) (auto simp: handleRecognition_capturing)
next
  case False
  show ?thesis
  proof (cases "\<exists>c. cooldownUntil s = Some c \<and> now < c")
    case True
    with False assms show ?thesis
      by (cases err) (auto simp: handleRecognition_idle)
  next
    case cooled: False
    with False assms have "\<exists>r. beginCapture tr config tBegin (s\<lparr>lastHeard := Some now\<rparr>) = Some r
       \<and> s' = fst r \<and> set es = set (snd r) \<union> (case err of
                      Some e \<Rightarrow> {Log Debug (''voicewake recognition error: '' @ e)}
                    | None \<Rightarrow> {})"
      by (cases err) (auto simp: handleRecognition_idle)
    with False cooled show ?thesis
      by (cases err) (auto simp: beginCapture_def not_less split: option.splits)
  qed
qed

theorem trigger_match_begins_capture_only_when_idle_and_cooled_witness:
  "matches ''hey claw what time is it'' (triggers exampleConfig)
   \<and> handleRecognition (Some ''hey claw what time is it'') None exampleConfig 1 1
        exampleListening
      = Some (exampleCapturing,
              [ShowPartial ''what time is it'', TriggerVoiceEars :: unit Effect,
               SpawnMonitor exampleConfig])
   \<and> \<not> isCapturing exampleListening
   \<and> cooldownUntil exampleListening = None
   \<and> handleRecognition (Some ''hey claw what time is it'') None exampleConfig 2.5 2.5
        (exampleListening\<lparr>cooldownUntil := Some 2.65\<rparr>)
      = Some (exampleListening\<lparr>cooldownUntil := Some 2.65, lastHeard := Some 2.5\<rparr>,
              [] :: unit Effect list)
   \<and> \<not> isCapturing (exampleListening\<lparr>cooldownUntil := Some 2.65, lastHeard := Some 2.5\<rparr>)"
proof -
  have m: "matches ''hey claw what time is it'' (triggers exampleConfig)"
    by (simp add: exampleConfig_def matches_example)
  have h: "handleRecognition (Some ''hey claw what time is it'') None exampleConfig 1 1
        exampleListening
      = Some (exampleCapturing,
              [ShowPartial ''what time is it'', TriggerVoiceEars :: unit Effect,
               SpawnMonitor exampleConfig])"
    by (rule exampleCapturing_begun)
  have c: "handleRecognition (Some ''hey claw what time is it'') None exampleConfig 2.5 2.5
        (exampleListening\<lparr>cooldownUntil := Some 2.65\<rparr>)
      = Some (exampleListening\<lparr>cooldownUntil := Some 2.65, lastHeard := Some 2.5\<rparr>,
              [] :: unit Effect list)"
    using m by (simp add: handleRecognition_def exampleListening_def)
  show ?thesis
    using trigger_match_begins_capture_only_when_idle_and_cooled [OF m h]
      trigger_match_begins_capture_only_when_idle_and_cooled [OF m c] m h c
    by (simp add: exampleListening_def)
qed

subsection \<open>An invariant of the capture\<close>

text \<open>
  The initial state has the invariant and every function of the actor keeps it: an
  active capture has a start time, a time of last activity and a monitor task. So the
  monitor always finds \<open>captureStartedAt\<close> and \<open>lastHeard\<close> set.
\<close>

lemma captureInvariant_initialRuntime: "captureInvariant initialRuntime"
  by (simp add: captureInvariant_def initialRuntime_def)

lemma captureInvariant_stop: "stop s = (s', es) \<Longrightarrow> captureInvariant s'"
  by (auto simp: captureInvariant_def stop_def)

lemma captureInvariant_start:
  "captureInvariant s \<Longrightarrow> start config env s = (s', es) \<Longrightarrow> captureInvariant s'"
  by (auto simp: captureInvariant_def start_def configureSession_def stop_def Let_def
      split: option.splits if_splits)

lemma captureInvariant_refresh:
  assumes "captureInvariant s"
    and "refresh voiceWakeSupported permissionsGranted state env s = (s', es)"
  shows "captureInvariant s'"
proof (cases "voiceWakeSupported \<and> fst (snapshot state) \<and> permissionsGranted")
  case False
  with assms(2) show ?thesis
    by (auto simp: refresh_def split: prod.splits if_splits dest: captureInvariant_stop)
next
  case True
  show ?thesis
  proof (cases "Some (snd (snapshot state)) = currentConfig s \<and> recognitionTask s \<noteq> None")
    case same: True
    with True assms show ?thesis
      by (simp add: refresh_def)
  next
    case changed: False
    with True assms(2) obtain s1 and es1 es2 :: "'a Effect list" where
      "stop s = (s1, es1)" and "start (snd (snapshot state)) env s1 = (s', es2)"
      by (auto simp: refresh_def Let_def split: prod.splits)
    then show ?thesis
      by (blast intro: captureInvariant_start captureInvariant_stop)
  qed
qed

lemma captureInvariant_finalizeCapture:
  assumes "isCapturing s \<or> captureInvariant s"
    and "finalizeCapture config forwardConfig tNow s = (s', es)"
  shows "captureInvariant s'"
  using assms
  by (auto simp: captureInvariant_def finalizeCapture_def restartRecognizer_def stop_def
      Let_def split: prod.splits if_splits)

lemma captureInvariant_handleRecognition:
  assumes "captureInvariant s"
    and "handleRecognition transcript err config now tBegin s = Some (s', es)"
  shows "captureInvariant s'"
proof (cases transcript)
  case None
  with assms show ?thesis
    by (simp add: handleRecognition_def)
next
  case (Some tr)
  show ?thesis
  proof (cases "isCapturing s")
    case True
    show ?thesis
    proof (cases "tr = []")
      case empty: True
      with True assms Some show ?thesis
        by (simp add: handleRecognition_def)
    next
      case False
      with True assms Some show ?thesis
        by (auto simp: handleRecognition_capturing captureInvariant_def)
    qed
  next
    case False
    show ?thesis
    proof (cases "matches tr (triggers config)")
      case True
      with False assms Some show ?thesis
        by (auto simp: handleRecognition_idle captureInvariant_def beginCapture_def
            split: if_splits option.splits)
    next
      case nomatch: False
      with False assms Some show ?thesis
        by (auto simp: handleRecognition_def captureInvariant_def split: if_splits)
    qed
  qed
qed

lemma captureInvariant_monitorPoll:
  assumes "captureInvariant s"
    and "monitorPoll config forwardConfig now tNow frame s = (frame', s', es)"
  shows "captureInvariant s'"
  using assms captureInvariant_finalizeCapture [of s config forwardConfig tNow s']
  by (auto simp: monitorPoll_def Let_def split: if_splits)

subsection \<open>The monitor\<close>





text \<open>
  Over consecutive polls: from a counter at 0, two silent polls before the hard stop
  finalize the capture at the second; a poll that finds recent activity puts the counter
  back to 0 and the capture goes on.
\<close>

lemma two_silent_polls_finalize:
  assumes "isCapturing s" and "silentStrikes frame = 0"
    and "now1 < hardStop frame" and "now2 < hardStop frame"
    and "silentAt s now1" and "silentAt s now2"
  shows "monitorPoll config forwardConfig now1 t1 frame s
           = (Some (frame\<lparr>silentStrikes := 1\<rparr>), s, [Sleep 200000000])"
    and "monitorPoll config forwardConfig now2 t2 (frame\<lparr>silentStrikes := 1\<rparr>) s
           = (None, finalizeCapture config forwardConfig t2 s)"
  using assms by (simp_all add: monitorPoll_def)

lemma activity_resets_silent_strikes:
  assumes "isCapturing s" and "now < hardStop frame" and "\<not> silentAt s now"
  shows "monitorPoll config forwardConfig now tNow frame s
           = (Some (frame\<lparr>silentStrikes := 0\<rparr>), s, [Sleep 200000000])"
  using assms by (simp add: monitorPoll_def)

subsection \<open>The trigger matcher\<close>

lemma lowercased_Nil_iff [simp]: "lowercased text = [] \<longleftrightarrow> text = []"
  by (cases "text" rule: lowercased.cases) simp_all

lemma isWhitespace_cases:
  "isWhitespace c \<longleftrightarrow> c = CHR 0x09 \<or> c = CHR 0x0A \<or> c = CHR 0x0B \<or> c = CHR 0x0C
      \<or> c = CHR 0x0D \<or> c = CHR 0x20"
  by (simp add: isWhitespace_def)

lemma isWhitespace_lowercasedASCII: 
  assumes "isWhitespace c" shows "lowercasedASCII c = c"
proof -
  from assms consider "c = CHR 0x09" | "c = CHR 0x0A" | "c = CHR 0x0B" | "c = CHR 0x0C"
      | "c = CHR 0x0D" | "c = CHR 0x20"
    unfolding isWhitespace_cases by blast
  then show ?thesis
    by cases (simp_all add: lowercasedASCII_def)
qed

lemma lowercased_whitespace:
  "\<forall>c\<in>set g. isWhitespace c \<Longrightarrow> lowercased g = g"
proof (induction g rule: lowercased.induct)
  case (3 a b cs)
  from 3(3) have "isWhitespace a" by simp
  then have "a \<noteq> CHR 0xC4" by (auto simp: isWhitespace_cases)
  with 3 show ?case by (simp add: isWhitespace_lowercasedASCII)
qed (simp_all add: isWhitespace_lowercasedASCII)

lemma trimmingCharacters_whitespace:
  assumes "\<forall>c\<in>set g. isWhitespace c"
  shows "trimmingCharacters g = []"
proof -
  from assms have "dropWhile isWhitespace g = []"
    by (induction g) simp_all
  then show ?thesis
    unfolding trimmingCharacters_def by (simp del: dropWhile_eq_Nil_conv)
qed

lemma rangeFrom_None_iff:
  "needle \<noteq> [] \<Longrightarrow> rangeFrom i hay needle = None \<longleftrightarrow> \<not> sublist needle hay"
  by (induction hay arbitrary: i) (simp_all add: sublist_Cons_right)

lemma containsString_iff:
  "containsString hay needle \<longleftrightarrow> needle \<noteq> [] \<and> sublist needle hay"
  using rangeFrom_None_iff [of needle 0 hay]
  by (auto simp: containsString_def rangeOf_def)

lemma matchesLoop_iff:
  "matchesLoop normalized trigs \<longleftrightarrow>
     (\<exists>l\<in>set (map lowercased trigs).
        trimmingCharacters l \<noteq> [] \<and> sublist (trimmingCharacters l) normalized)"
  by (induction trigs) (auto simp: containsString_iff Let_def)

text \<open>
  C7: \<open>matches\<close> is true exactly when the text is not empty and some trigger, lowercased
  and trimmed of white space and not empty after that, occurs in the lowercased text. So
  it is false for the empty text, false when every trigger is empty or made of white
  space, and it does not see case: texts with one lowercased form and trigger lists with
  the same lowercased forms give the same answer.
\<close>

theorem matches_iff_some_trigger_occurs:
  "(matches text trigs \<longleftrightarrow>
      text \<noteq> []
      \<and> (\<exists>g\<in>set trigs. trimmingCharacters (lowercased g) \<noteq> []
            \<and> sublist (trimmingCharacters (lowercased g)) (lowercased text)))
   \<and> \<not> matches [] trigs
   \<and> ((\<forall>g\<in>set trigs. \<forall>c\<in>set g. isWhitespace c) \<longrightarrow> \<not> matches text trigs)
   \<and> (lowercased text = lowercased text' \<and> map lowercased trigs = map lowercased trigs'
        \<longrightarrow> matches text trigs = matches text' trigs')"
proof (intro conjI impI)
  show iff: "matches text trigs \<longleftrightarrow>
      text \<noteq> []
      \<and> (\<exists>g\<in>set trigs. trimmingCharacters (lowercased g) \<noteq> []
            \<and> sublist (trimmingCharacters (lowercased g)) (lowercased text))"
    by (auto simp: matches_def matchesLoop_iff)
  show "\<not> matches [] trigs"
    by (simp add: matches_def)
  show "\<not> matches text trigs" if "\<forall>g\<in>set trigs. \<forall>c\<in>set g. isWhitespace c"
    using that by (auto simp: matches_def matchesLoop_iff lowercased_whitespace
        trimmingCharacters_whitespace)
  show "matches text trigs = matches text' trigs'"
    if "lowercased text = lowercased text' \<and> map lowercased trigs = map lowercased trigs'"
  proof -
    from that have "text = [] \<longleftrightarrow> text' = []"
      by (metis lowercased_Nil_iff)
    with that show ?thesis
      by (simp add: matches_def matchesLoop_iff)
  qed
qed

theorem matches_iff_some_trigger_occurs_witness:
  "matches ''Hey Claw'' [''hey claw'']
   \<and> ''Hey Claw'' \<noteq> []
   \<and> sublist (trimmingCharacters (lowercased ''hey claw'')) (lowercased ''Hey Claw'')
   \<and> list_all (list_all isWhitespace) ['''', '' '']
   \<and> \<not> matches ''hey claw'' ['''', '' '']
   \<and> lowercased ''Hey Claw'' = lowercased ''hey claw''
   \<and> map lowercased [''HEY CLAW''] = map lowercased [''hey claw'']
   \<and> matches ''Hey Claw'' [''HEY CLAW''] = matches ''hey claw'' [''hey claw'']"
proof -
  have l: "lowercased ''Hey Claw'' = ''hey claw''" "lowercased ''hey claw'' = ''hey claw''"
    "lowercased ''HEY CLAW'' = ''hey claw''"
    by (simp_all add: lowercasedASCII_def)
  have t: "trimmingCharacters ''hey claw'' = ''hey claw''"
    by (simp add: trimmingCharacters_def isWhitespace_def)
  have w: "list_all (list_all isWhitespace) ['''', '' '']"
    by (simp add: isWhitespace_def)
  have e: "lowercased ''Hey Claw'' = lowercased ''hey claw''
     \<and> map lowercased [''HEY CLAW''] = map lowercased [''hey claw'']"
    by (simp add: lowercasedASCII_def)
  show ?thesis
    using matches_iff_some_trigger_occurs [of "''Hey Claw''" "[''hey claw'']" "''hey claw''" "[''hey claw'']"]
      matches_iff_some_trigger_occurs [of "''hey claw''" "['''', '' '']" "''hey claw''" "['''', '' '']"]
      matches_iff_some_trigger_occurs [of "''Hey Claw''" "[''HEY CLAW'']" "''hey claw''" "[''hey claw'']"]
      w e
    by (auto simp add: lowercasedASCII_def trimmingCharacters_def isWhitespace_def)
qed

text \<open>
  C8, where the code departs from it: \<open>trimmedAfterTrigger\<close> finds the trigger in the
  lowercased copy of the text and applies the end of that match, an index of the copy, to
  the text itself. Lowercasing U+0130 makes the copy one code unit longer for each
  occurrence, so behind two of them the index lies two code units too far, and the text
  after the trigger loses its first characters: of \<open>go\<close> the result keeps \<open>o\<close>. When the
  trigger ends the text the index lies beyond the end of the text, which traps.
\<close>

theorem trimmedAfterTrigger_uses_index_of_lowercased_copy:
  "length (capitalIWithDotAbove @ ''stanbul '' @ capitalIWithDotAbove @ ''zmir hey claw go'')
     = 28
   \<and> rangeOf (lowercased (capitalIWithDotAbove @ ''stanbul '' @ capitalIWithDotAbove
               @ ''zmir hey claw go'')) ''hey claw'' = Some (19, 27)
   \<and> trimmedAfterTrigger
        (capitalIWithDotAbove @ ''stanbul '' @ capitalIWithDotAbove @ ''zmir hey claw go'')
        [''hey claw''] = Some ''o''
   \<and> trimmedAfterTrigger (capitalIWithDotAbove @ ''stanbul hey claw'') [''hey claw'']
       = None"
  by (simp add: capitalIWithDotAbove_def string_eval)

lemma lowercased_without_capitalIWithDotAbove:
  "\<not> sublist capitalIWithDotAbove text \<Longrightarrow> lowercased text = map lowercasedASCII text"
proof (induction "text" rule: lowercased.induct)
  case (3 a b cs)
  from "3.prems" have "\<not> prefix [CHR 0xC4, CHR 0xB0] (a # b # cs)"
    and rest: "\<not> sublist capitalIWithDotAbove (b # cs)"
    by (simp_all add: capitalIWithDotAbove_def sublist_Cons_right)
  then have "\<not> (a = CHR 0xC4 \<and> b = CHR 0xB0)"
    by auto
  with "3.IH" rest show ?case
    by auto
qed simp_all

lemma rangeFrom_Some:
  assumes "rangeFrom i hay needle = Some (lo, hi)"
  shows "lo = i + (LEAST k. prefix needle (drop k hay)) \<and> hi = lo + length needle
     \<and> hi \<le> i + length hay \<and> prefix needle (drop (lo - i) hay)"
  using assms
proof (induction hay arbitrary: i)
  case Nil
  then show ?case by simp
next
  case (Cons c cs)
  show ?case
  proof (cases "prefix needle (c # cs)")
    case True
    then have "(LEAST k. prefix needle (drop k (c # cs))) = 0"
      by (intro Least_equality) simp_all
    moreover from True have "length needle \<le> length (c # cs)"
      by (rule prefix_length_le)
    ultimately show ?thesis
      using True Cons.prems by auto
  next
    case False
    with Cons.prems have "rangeFrom (Suc i) cs needle = Some (lo, hi)"
      by simp
    from Cons.IH [OF this] have ih: "lo = Suc i + (LEAST k. prefix needle (drop k cs))"
      "hi = lo + length needle" "hi \<le> Suc i + length cs"
      "prefix needle (drop (lo - Suc i) cs)"
      by blast+
    have "(LEAST k. prefix needle (drop k (c # cs)))
        = Suc (LEAST k. prefix needle (drop (Suc k) (c # cs)))"
    proof (rule Least_Suc)
      from ih(4) show "prefix needle (drop (Suc (lo - Suc i)) (c # cs))"
        by simp
      from False show "\<not> prefix needle (drop 0 (c # cs))"
        by simp
    qed
    then have "(LEAST k. prefix needle (drop k (c # cs)))
        = Suc (LEAST k. prefix needle (drop k cs))"
      by simp
    moreover from ih(1) have "lo - i = Suc (lo - Suc i)"
      by simp
    ultimately show ?thesis
      using ih by simp
  qed
qed

text \<open>
  For text without U+0130 the lowercased copy has the code units of the text at the same
  offsets, and the function returns what its name says: the text itself when no trigger
  occurs, and otherwise, for the first trigger in the list that occurs, the text after
  the end of its first occurrence, trimmed.
\<close>

lemma trimmedAfterTrigger_without_capitalIWithDotAbove:
  assumes "\<not> sublist capitalIWithDotAbove text"
  shows "trimmedAfterTrigger text trigs
     = Some (case find (\<lambda>t. t \<noteq> [] \<and> sublist t (lowercased text))
                    (map (\<lambda>g. trimmingCharacters (lowercased g)) trigs) of
               None \<Rightarrow> text
             | Some token \<Rightarrow>
                 trimmingCharacters
                   (drop ((LEAST k. prefix token (drop k (lowercased text))) + length token)
                      text))"
proof -
  from assms have len: "length (lowercased text) = length text"
    by (simp add: lowercased_without_capitalIWithDotAbove)
  have "trimmedAfterLoop text lower trigs
     = Some (case find (\<lambda>t. t \<noteq> [] \<and> sublist t lower)
                    (map (\<lambda>g. trimmingCharacters (lowercased g)) trigs) of
               None \<Rightarrow> text
             | Some token \<Rightarrow>
                 trimmingCharacters
                   (drop ((LEAST k. prefix token (drop k lower)) + length token) text))"
    if "length lower = length text" for lower
  proof (induction trigs)
    case Nil
    show ?case by simp
  next
    case (Cons g trigs)
    let ?token = "trimmingCharacters (lowercased g)"
    show ?case
    proof (cases "?token \<noteq> [] \<and> sublist ?token lower")
      case False
      then have "?token = [] \<or> rangeOf lower ?token = None"
        by (auto simp: rangeOf_def rangeFrom_None_iff)
      with False Cons.IH show ?thesis
        by (auto simp: Let_def)
    next
      case True
      then obtain lo hi where found: "rangeFrom 0 lower ?token = Some (lo, hi)"
        using rangeFrom_None_iff [of ?token 0 lower] by auto
      from rangeFrom_Some [OF this] that
      have "hi = (LEAST k. prefix ?token (drop k lower)) + length ?token" "hi \<le> length text"
        by simp_all
      with True found show ?thesis
        by (simp add: Let_def rangeOf_def suffixFrom_def)
    qed
  qed
  from this [OF len] show ?thesis
    by (simp add: trimmedAfterTrigger_def)
qed

subsection \<open>The flag heardBeyondTrigger\<close>

lemma processRecognitions_append:
  "processRecognitions (xs @ ys) s
     = (case processRecognitions xs s of
          None \<Rightarrow> None
        | Some (s1, es1) \<Rightarrow>
            map_option (\<lambda>(s2, es2). (s2, es1 @ es2)) (processRecognitions ys s1))"
proof (induction xs arbitrary: s)
  case Nil
  show ?case
    by (simp add: option.map_id)
next
  case (Cons ev xs)
  show ?case
    by (auto simp: Cons.IH option.map_comp comp_def case_prod_unfold split: option.splits)
qed

lemma processRecognitions_capturing:
  assumes "isCapturing s"
    and "\<forall>ev\<in>set evs. \<exists>tr. transcriptOf ev = Some tr \<and> tr \<noteq> []"
    and "processRecognitions evs s = Some (s', es :: 'f Effect list)"
  shows "isCapturing s'
     \<and> heardBeyondTrigger s'
         = (heardBeyondTrigger s
            \<or> (\<exists>ev\<in>set evs. textHasBeyondTriggerContent (the (transcriptOf ev))))"
  using assms
proof (induction evs arbitrary: s es)
  case Nil
  then show ?case by simp
next
  case (Cons ev evs)
  from Cons.prems(2) obtain tr where tr: "transcriptOf ev = Some tr" "tr \<noteq> []"
    by auto
  from Cons.prems(3) obtain s1 and es1 es2 :: "'f Effect list" where
    step: "handleRecognition (Some tr) (errorOf ev) (configOf ev) (nowOf ev) (beginOf ev) s
             = Some (s1, es1)"
    and rest: "processRecognitions evs s1 = Some (s', es2)"
    by (auto simp: tr split: option.splits)
  from step Cons.prems(1) tr(2) have s1: "isCapturing s1"
    "heardBeyondTrigger s1 = (heardBeyondTrigger s \<or> textHasBeyondTriggerContent tr)"
    by (auto simp: handleRecognition_capturing)
  from Cons.IH [OF s1(1) _ rest] Cons.prems(2) s1(2) tr show ?case
    by auto
qed

text \<open>
  C1 with the tokens counted in the whole transcript: after the transcript \<open>t0\<close> has begun
  a capture and a sequence of non-empty transcript updates has been processed, the
  capture is still active, and
  \<^item> \<open>heardBeyondTrigger\<close> is true if \<open>t0\<close> or one of the updates has two or more tokens
    separated by white space and some text left after its trigger;
  \<^item> \<open>heardBeyondTrigger\<close> is true only if \<open>t0\<close> or one of the updates has two or more
    tokens, so it is false as long as none has;
  \<^item> once it is true after a part of the sequence it is true after the whole sequence.
  What the flag is when a transcript of two or more tokens has no text after its trigger
  is not part of the statement.
\<close>

theorem heardBeyondTrigger_counts_whole_transcript:
  assumes "beginCapture t0 config0 tBegin s0 = Some (s, es0)"
    and "\<forall>ev\<in>set evs. \<exists>tr. transcriptOf ev = Some tr \<and> tr \<noteq> []"
    and "processRecognitions evs s = Some (s', es :: 'f Effect list)"
  shows "isCapturing s'
     \<and> ((2 \<le> length (splitWhitespace t0)
           \<and> (\<exists>rest. trimmedAfterTrigger t0 (triggers config0) = Some rest \<and> rest \<noteq> []))
          \<or> (\<exists>ev\<in>set evs.
                2 \<le> length (splitWhitespace (the (transcriptOf ev)))
                \<and> (\<exists>rest. trimmedAfterTrigger (the (transcriptOf ev)) (triggers (configOf ev))
                             = Some rest \<and> rest \<noteq> []))
          \<longrightarrow> heardBeyondTrigger s')
     \<and> (heardBeyondTrigger s'
          \<longrightarrow> (\<exists>tr\<in>set (t0 # map (the \<circ> transcriptOf) evs).
                 2 \<le> length (splitWhitespace tr)))
     \<and> (\<forall>n s1 (es1 :: 'f Effect list).
            processRecognitions (take n evs) s = Some (s1, es1)
            \<and> heardBeyondTrigger s1 \<longrightarrow> heardBeyondTrigger s')"
proof -
  from assms(1) have begun: "isCapturing s"
    "heardBeyondTrigger s = textHasBeyondTriggerContent t0"
    by (auto simp: beginCapture_def split: option.splits)
  have two: "textHasBeyondTriggerContent tr \<longleftrightarrow> 2 \<le> length (splitWhitespace tr)" for tr
    by (auto simp: textHasBeyondTriggerContent_def)
  from processRecognitions_capturing [OF begun(1) assms(2) assms(3)] begun(2)
  have now: "isCapturing s'"
    "heardBeyondTrigger s'
       = (\<exists>tr\<in>set (t0 # map (the \<circ> transcriptOf) evs). 2 \<le> length (splitWhitespace tr))"
    by (simp_all add: two)
  have "heardBeyondTrigger s'"
    if "processRecognitions (take n evs) s = Some (s1, es1)" and "heardBeyondTrigger s1"
    for n s1 and es1 :: "'f Effect list"
  proof -
    have "processRecognitions (take n evs @ drop n evs) s = Some (s', es)"
      using assms(3) by simp
    with that(1) obtain es2 :: "'f Effect list" where
      rest: "processRecognitions (drop n evs) s1 = Some (s', es2)"
      unfolding processRecognitions_append by auto
    from begun(1) assms(2) that(1) have "isCapturing s1"
      using processRecognitions_capturing [of s "take n evs" s1 es1]
      by (auto dest: in_set_takeD)
    from processRecognitions_capturing [OF this _ rest] assms(2) that(2) show ?thesis
      by (auto dest: in_set_dropD)
  qed
  moreover have "heardBeyondTrigger s'"
    if "(2 \<le> length (splitWhitespace t0)
           \<and> (\<exists>rest. trimmedAfterTrigger t0 (triggers config0) = Some rest \<and> rest \<noteq> []))
          \<or> (\<exists>ev\<in>set evs.
                2 \<le> length (splitWhitespace (the (transcriptOf ev)))
                \<and> (\<exists>rest. trimmedAfterTrigger (the (transcriptOf ev)) (triggers (configOf ev))
                             = Some rest \<and> rest \<noteq> []))"
    using that unfolding now(2) by auto
  ultimately show ?thesis
    using now by blast
qed

theorem heardBeyondTrigger_counts_whole_transcript_witness:
  "beginCapture ''claw'' exampleOneWord 1 exampleOneWordHeard
     = Some (exampleOneWordBegun,
             [ShowPartial [], TriggerVoiceEars :: unit Effect, SpawnMonitor exampleOneWord])
   \<and> list_all (\<lambda>ev. transcriptOf ev \<noteq> None \<and> transcriptOf ev \<noteq> Some []) exampleUpdates
   \<and> processRecognitions exampleUpdates exampleOneWordBegun
       = Some (exampleOneWordBegun\<lparr>lastHeard := Some 3, capturedTranscript := ''go'',
                 heardBeyondTrigger := True\<rparr>,
               [ShowPartial [], ShowPartial ''go'' :: unit Effect])
   \<and> length (splitWhitespace ''claw go'') = 2
   \<and> trimmedAfterTrigger ''claw go'' (triggers exampleOneWord) = Some ''go''
   \<and> heardBeyondTrigger (exampleOneWordBegun\<lparr>lastHeard := Some 3,
         capturedTranscript := ''go'', heardBeyondTrigger := True\<rparr>)
   \<and> processRecognitions (take 1 exampleUpdates) exampleOneWordBegun
       = Some (exampleOneWordBegun\<lparr>lastHeard := Some 2\<rparr>, [ShowPartial [] :: unit Effect])
   \<and> length (splitWhitespace ''claw'') = 1
   \<and> \<not> heardBeyondTrigger (exampleOneWordBegun\<lparr>lastHeard := Some 2\<rparr>)"
proof -
  have strings: "trimmedAfterTrigger ''claw'' [''claw''] = Some []"
    "trimmedAfterTrigger ''claw go'' [''claw''] = Some ''go''"
    "textHasBeyondTriggerContent ''claw'' = False"
    "textHasBeyondTriggerContent ''claw go'' = True"
    "length (splitWhitespace ''claw'') = 1" "length (splitWhitespace ''claw go'') = 2"
    by (simp_all add: string_eval)
  have a: "beginCapture ''claw'' exampleOneWord 1 exampleOneWordHeard
     = Some (exampleOneWordBegun,
             [ShowPartial [], TriggerVoiceEars :: unit Effect, SpawnMonitor exampleOneWord])"
    by (simp add: beginCapture_def exampleOneWord_def exampleOneWordListening_def
        exampleOneWordHeard_def exampleOneWordBegun_def exampleListening_def strings)
  have b: "\<forall>ev\<in>set exampleUpdates. \<exists>tr. transcriptOf ev = Some tr \<and> tr \<noteq> []"
    "\<forall>ev\<in>set (take 1 exampleUpdates). \<exists>tr. transcriptOf ev = Some tr \<and> tr \<noteq> []"
    by (simp_all add: exampleUpdates_def)
  have c: "processRecognitions exampleUpdates exampleOneWordBegun
       = Some (exampleOneWordBegun\<lparr>lastHeard := Some 3, capturedTranscript := ''go'',
                 heardBeyondTrigger := True\<rparr>,
               [ShowPartial [], ShowPartial ''go'' :: unit Effect])"
    by (simp add: exampleUpdates_def handleRecognition_def updateHeardBeyondTrigger_def
        exampleOneWord_def exampleOneWordListening_def exampleOneWordHeard_def
        exampleOneWordBegun_def exampleListening_def strings)
  have d: "processRecognitions (take 1 exampleUpdates) exampleOneWordBegun
       = Some (exampleOneWordBegun\<lparr>lastHeard := Some 2\<rparr>, [ShowPartial [] :: unit Effect])"
    by (simp add: exampleUpdates_def handleRecognition_def updateHeardBeyondTrigger_def
        exampleOneWord_def exampleOneWordListening_def exampleOneWordHeard_def
        exampleOneWordBegun_def exampleListening_def strings)
  show ?thesis
    using heardBeyondTrigger_counts_whole_transcript [OF a b(1) c]
      heardBeyondTrigger_counts_whole_transcript [OF a b(2) d] a c d
    by (simp add: exampleUpdates_def exampleOneWord_def strings)
qed

text \<open>
  Counterexample to C1 as the specification states it, with the tokens counted in the
  trimmed text after the trigger: for the one-word trigger \<open>claw\<close>, the transcript \<open>claw\<close>
  begins a capture and the update \<open>claw go\<close> follows. The text after the trigger is empty
  for the first and the single token \<open>go\<close> for the second, so no transcript has two
  tokens after the trigger; the flag is set, since the user has said a word beyond the
  trigger.
\<close>

theorem heardBeyondTrigger_set_by_one_word_after_trigger:
  "map_option (length \<circ> splitWhitespace)
     (trimmedAfterTrigger ''claw'' (triggers exampleOneWord)) = Some 0
   \<and> map_option (length \<circ> splitWhitespace)
       (trimmedAfterTrigger ''claw go'' (triggers exampleOneWord)) = Some 1
   \<and> map_option (heardBeyondTrigger \<circ> fst)
       (processRecognitions
          [Recognition (Some ''claw'') None exampleOneWord 1 1] exampleOneWordListening
          :: (VoiceWakeRuntime \<times> unit Effect list) option) = Some False
   \<and> map_option (heardBeyondTrigger \<circ> fst)
       (processRecognitions
          [Recognition (Some ''claw'') None exampleOneWord 1 1,
           Recognition (Some ''claw go'') None exampleOneWord 2 2] exampleOneWordListening
          :: (VoiceWakeRuntime \<times> unit Effect list) option) = Some True"
proof -
  have m: "matches ''claw'' [''claw'']"
    "trimmedAfterTrigger ''claw'' [''claw''] = Some []"
    "trimmedAfterTrigger ''claw go'' [''claw''] = Some ''go''"
    "textHasBeyondTriggerContent ''claw'' = False"
    "textHasBeyondTriggerContent ''claw go'' = True"
    by (simp_all add: string_eval)
  show ?thesis
    by (simp add: handleRecognition_def beginCapture_def exampleListening_def
        exampleOneWordListening_def exampleOneWord_def updateHeardBeyondTrigger_def m
        splitWhitespace_def isWhitespace_def)
qed

text \<open>
  The case that the statement above leaves open, where the word count misses what the
  name of the flag says: with the trigger \<open>hey claw\<close>, of two words, the transcript
  \<open>hey claw\<close> alone has two tokens and sets the flag, although no text follows the trigger
  and the finalization of such a capture dismisses it as empty.
\<close>

lemma two_word_trigger_alone_sets_heardBeyondTrigger:
  "map_option (length \<circ> splitWhitespace)
     (trimmedAfterTrigger ''hey claw'' (triggers exampleConfig)) = Some 0
   \<and> map_option (heardBeyondTrigger \<circ> fst)
       (handleRecognition (Some ''hey claw'') None exampleConfig 1 1 exampleListening
          :: (VoiceWakeRuntime \<times> unit Effect list) option) = Some True"
proof -
  have m: "matches ''hey claw'' [''hey claw'']"
    "trimmedAfterTrigger ''hey claw'' [''hey claw''] = Some []"
    "textHasBeyondTriggerContent ''hey claw''"
    by (simp_all add: string_eval)
  show ?thesis
    by (simp add: handleRecognition_def beginCapture_def exampleListening_def
        exampleConfig_def m splitWhitespace_def)
qed

subsection \<open>The cooldown after a finalization\<close>

text \<open>
  Every finalization of an active capture, with or without a transcript, leaves
  \<open>cooldownUntil\<close> at its time plus 0.35 s.
\<close>

lemma finalizeCapture_sets_cooldown:
  assumes "isCapturing s" and "finalizeCapture config forwardConfig tNow s = (s', es)"
  shows "cooldownUntil s' = Some (tNow + 0.35)"
  using assms
  by (auto simp: finalizeCapture_def restartRecognizer_def stop_def debounceAfterSend_def
      Let_def split: if_splits)

text \<open>
  C2, where the code departs from it: the finalization at 2.3 s sets \<open>cooldownUntil\<close> to
  2.65 s and spawns the restart; until the restart runs a trigger match at 2.5 s is
  ignored, but the start at 2.4 s sets \<open>cooldownUntil\<close> to \<^verbatim>\<open>nil\<close>, and the same match at
  2.5 s, inside the 0.35 s of the debounce, begins a capture.
\<close>

theorem cooldown_of_finalize_lost_at_restart:
  "finalizeCapture exampleConfig () 2.3 exampleCapturing
     = (exampleFinalized,
        [CancelCaptureTask, StopVoiceEars, PresentFinal ''what time is it'' () 1.0,
         CancelRecognitionTask, EndAudio, RemoveTap, AudioEngineStop,
         Log Debug ''voicewake runtime stopped'', Dismiss, SpawnStart exampleConfig])
   \<and> cooldownUntil exampleFinalized = Some 2.65
   \<and> handleRecognition (Some ''hey claw again'') None exampleConfig 2.5 2.5 exampleFinalized
       = Some (exampleFinalized\<lparr>lastHeard := Some 2.5\<rparr>, [] :: unit Effect list)
   \<and> start exampleConfig (examplePlatform 2.4) exampleFinalized
       = (exampleRestarted,
          [RemoveTap, InstallTap, AudioEnginePrepare, AudioEngineStart :: unit Effect,
           Log Info ''voicewake runtime started''])
   \<and> cooldownUntil exampleRestarted = None
   \<and> handleRecognition (Some ''hey claw again'') None exampleConfig 2.5 2.5 exampleRestarted
       = Some (exampleRestarted\<lparr>lastHeard := Some 2.5, isCapturing := True,
                 capturedTranscript := ''again'', captureStartedAt := Some 2.5,
                 heardBeyondTrigger := True, captureTask := True\<rparr>,
               [ShowPartial ''again'', TriggerVoiceEars :: unit Effect,
                SpawnMonitor exampleConfig])"
proof -
  have m: "matches ''hey claw again'' [''hey claw'']"
    "trimmedAfterTrigger ''hey claw again'' [''hey claw''] = Some ''again''"
    "textHasBeyondTriggerContent ''hey claw again''"
    by (simp_all add: string_eval)
  have a: "finalizeCapture exampleConfig () 2.3 exampleCapturing
     = (exampleFinalized,
        [CancelCaptureTask, StopVoiceEars, PresentFinal ''what time is it'' () 1.0,
         CancelRecognitionTask, EndAudio, RemoveTap, AudioEngineStop,
         Log Debug ''voicewake runtime stopped'', Dismiss, SpawnStart exampleConfig])"
    by (simp add: finalizeCapture_def restartRecognizer_def stop_def example_states
        debounceAfterSend_def trimmingCharacters_def isWhitespace_def)
  have b: "cooldownUntil exampleFinalized = Some 2.65" "cooldownUntil exampleRestarted = None"
    by (simp_all add: example_states)
  have c: "handleRecognition (Some ''hey claw again'') None exampleConfig 2.5 2.5
       exampleFinalized
       = Some (exampleFinalized\<lparr>lastHeard := Some 2.5\<rparr>, [] :: unit Effect list)"
    by (simp add: handleRecognition_def example_states m)
  have d: "start exampleConfig (examplePlatform 2.4) exampleFinalized
       = (exampleRestarted,
          [RemoveTap, InstallTap, AudioEnginePrepare, AudioEngineStart :: unit Effect,
           Log Info ''voicewake runtime started''])"
    by (simp add: start_def configureSession_def example_states)
  have e: "handleRecognition (Some ''hey claw again'') None exampleConfig 2.5 2.5
       exampleRestarted
       = Some (exampleRestarted\<lparr>lastHeard := Some 2.5, isCapturing := True,
                 capturedTranscript := ''again'', captureStartedAt := Some 2.5,
                 heardBeyondTrigger := True, captureTask := True\<rparr>,
               [ShowPartial ''again'', TriggerVoiceEars :: unit Effect,
                SpawnMonitor exampleConfig])"
    by (simp add: handleRecognition_def beginCapture_def example_states m)
  from a b c d e show ?thesis
    by (intro conjI)
qed

end
